theory Spec2Isabelle
  imports Main "HOL-Library.Word"
begin

section \<open>Go errors\<close>

text \<open>
  The error values the bridge tells apart. \<open>Wrapped\<close> is an error that wraps another
  one; \<^verbatim>\<open>ierrors.Is\<close> and \<^verbatim>\<open>status.Code\<close> both look through the wrapping.
  An error that carries no gRPC status has the code \<open>Unknown\<close>.
\<close>

datatype code = OK | Canceled | Unknown | DeadlineExceeded | ResourceExhausted | Unavailable

datatype error =
    EOF
  | GRPCStatus code string
  | ErrIndexerPluginNotAvailable
  | ErrMQTTPluginNotAvailable
  | Errorf string "string list"
  | Wrapped string error

fun ierrors_Is :: "error \<Rightarrow> error \<Rightarrow> bool" where
  "ierrors_Is (Wrapped m e) target = (Wrapped m e = target \<or> ierrors_Is e target)"
| "ierrors_Is e target = (e = target)"

fun status_Code :: "error \<Rightarrow> code" where
  "status_Code (GRPCStatus c m) = c"
| "status_Code (Wrapped m e) = status_Code e"
| "status_Code e = Unknown"

text \<open>
  What a call that returns an \<^verbatim>\<open>error\<close> can do: return \<^verbatim>\<open>nil\<close>
  (\<open>Returns None\<close>), return an error, or panic. A panic is not recovered anywhere in
  the package, so it unwinds through every caller.
\<close>

datatype outcome = Returns "error option" | Panics error

section \<open>Contexts\<close>

text \<open>
  A \<^verbatim>\<open>context.Context\<close> is read by the code only through \<^verbatim>\<open>ctx.Err()\<close>.
  \<open>ctx i\<close> says that the \<open>i\<close>-th inspection (counted from zero) by the running function finds
  \<^verbatim>\<open>ctx.Err() != nil\<close>. A real context stays cancelled once it is; the functions below
  stop at the first inspection that finds it cancelled, so nothing depends on that.
\<close>

type_synonym Context = "nat \<Rightarrow> bool"

definition Background :: Context where
  "Background = (\<lambda>i. False)"

definition AlreadyCancelled :: Context where
  "AlreadyCancelled = (\<lambda>i. True)"

section \<open>The generic stream consumer\<close>

text \<open>
  One call of \<^verbatim>\<open>receiverFunc\<close> returns an item or an error. The stream is the list
  of what the successive calls return; when the list is used up the next call blocks
  for ever, and so does \<^verbatim>\<open>ListenToStream\<close> (the value \<open>None\<close>).

  \<^verbatim>\<open>consumerFunc\<close> is a closure: it gets the item and its own state and yields an
  outcome and the new state. The result records what was returned, the items the consumer
  was invoked with (in order), the consumer's last state and the part of the stream that no
  call of \<^verbatim>\<open>receiverFunc\<close> has read.
\<close>

datatype 'k received = Item 'k | RecvErr error

record ('k, 's) listened =
  returned :: outcome
  calls :: "'k list"
  final :: 's
  unread :: "'k received list"

definition stream_closed :: "error \<Rightarrow> bool" where
  "stream_closed err = (ierrors_Is err EOF \<or> status_Code err = Canceled)"

fun ListenToStream_loop ::
  "Context \<Rightarrow> ('k \<Rightarrow> 's \<Rightarrow> outcome \<times> 's) \<Rightarrow> 'k list \<Rightarrow> 's \<Rightarrow> 'k received list
    \<Rightarrow> ('k, 's) listened option" where
  "ListenToStream_loop ctx consumerFunc handled s [] = None"
| "ListenToStream_loop ctx consumerFunc handled s (RecvErr err # rest) =
     (if stream_closed err
      then Some \<lparr>returned = Returns None, calls = handled, final = s, unread = rest\<rparr>
      else Some \<lparr>returned = Returns (Some err), calls = handled, final = s, unread = rest\<rparr>)"
| "ListenToStream_loop ctx consumerFunc handled s (Item item # rest) =
     (if ctx (length handled)
      then Some \<lparr>returned = Returns None, calls = handled, final = s, unread = rest\<rparr>
      else (case consumerFunc item s of
              (Returns None, s') \<Rightarrow> ListenToStream_loop ctx consumerFunc (handled @ [item]) s' rest
            | (r, s') \<Rightarrow> Some \<lparr>returned = r, calls = handled @ [item], final = s', unread = rest\<rparr>))"

definition ListenToStream ::
  "Context \<Rightarrow> 'k received list \<Rightarrow> ('k \<Rightarrow> 's \<Rightarrow> outcome \<times> 's) \<Rightarrow> 's \<Rightarrow> ('k, 's) listened option" where
  "ListenToStream ctx receiverFunc consumerFunc s = ListenToStream_loop ctx consumerFunc [] s receiverFunc"

text \<open>
  \<open>consume_all f s items\<close> runs the consumer over \<open>items\<close> as long as it returns
  \<^verbatim>\<open>nil\<close>: \<open>Some\<close> of the last state when every call did, \<open>None\<close> otherwise.
\<close>

fun consume_all :: "('k \<Rightarrow> 's \<Rightarrow> outcome \<times> 's) \<Rightarrow> 's \<Rightarrow> 'k list \<Rightarrow> 's option" where
  "consume_all f s [] = Some s"
| "consume_all f s (x # xs) =
     (case f x s of (Returns None, s') \<Rightarrow> consume_all f s' xs | _ \<Rightarrow> None)"

section \<open>Listening to blocks\<close>

text \<open>
  \<^verbatim>\<open>ListenToBlocks\<close> opens the block stream (\<open>opened\<close>: what
  \<^verbatim>\<open>n.client.ListenToBlocks\<close> returns) and hands every received block to a closure
  that decodes it with \<^verbatim>\<open>MustUnwrapBlock\<close> and calls the caller's consumer with the
  decoded block and the raw bytes. The decoder \<^verbatim>\<open>UnwrapBlock\<close> of the API provider is
  a parameter; \<^verbatim>\<open>MustUnwrapBlock\<close> (package inx) is its variant that panics with the
  decoder's error instead of returning it.
  The error log line of the failing branch changes no result and is left out.
\<close>

datatype 'a must = Value 'a | Panic error

definition MustUnwrapBlock :: "('raw \<Rightarrow> error + 'blk) \<Rightarrow> 'raw \<Rightarrow> 'blk must" where
  "MustUnwrapBlock UnwrapBlock block =
     (case UnwrapBlock block of Inl err \<Rightarrow> Panic err | Inr decoded \<Rightarrow> Value decoded)"

definition blockHandler ::
  "('raw \<Rightarrow> error + 'blk) \<Rightarrow> ('blk \<Rightarrow> 'raw \<Rightarrow> 's \<Rightarrow> outcome \<times> 's) \<Rightarrow> 'raw \<Rightarrow> 's \<Rightarrow> outcome \<times> 's" where
  "blockHandler UnwrapBlock consumer block s =
     (case MustUnwrapBlock UnwrapBlock block of
        Panic err \<Rightarrow> (Panics err, s)
      | Value decoded \<Rightarrow> consumer decoded block s)"

definition ListenToBlocks ::
  "Context \<Rightarrow> ('raw \<Rightarrow> error + 'blk) \<Rightarrow> error + 'raw received list
    \<Rightarrow> ('blk \<Rightarrow> 'raw \<Rightarrow> 's \<Rightarrow> outcome \<times> 's) \<Rightarrow> 's \<Rightarrow> ('raw, 's) listened option" where
  "ListenToBlocks ctx UnwrapBlock opened consumer s =
     (case opened of
        Inl err \<Rightarrow> Some \<lparr>returned = Returns (Some err), calls = [], final = s, unread = []\<rparr>
      | Inr stream \<Rightarrow> ListenToStream ctx stream (blockHandler UnwrapBlock consumer) s)"

section \<open>The capability pollers\<close>

text \<open>
  \<^verbatim>\<open>time.Duration\<close> counts nanoseconds. A poller's effects are its calls of the plugin
  accessor (each under a one-second timeout) and its sleeps.
\<close>

type_synonym Duration = int

definition Second :: Duration where
  "Second = 1000000000"

datatype poll_effect = CallPlugin | Sleep Duration

text \<open>
  The loops of \<^verbatim>\<open>Indexer\<close> and \<^verbatim>\<open>EventAPI\<close> are the same text up to the accessor
  they call and the sentinel error they compare with and return, so one function models
  both. \<open>probe i\<close> is what the \<open>i\<close>-th call of the accessor returns (an attempt that runs
  into its timeout returns an error), \<open>ctx i\<close> what the \<open>i\<close>-th evaluation of the loop
  condition finds. The loop has no bound of its own: a run that never returns is \<open>None\<close>.
\<close>

partial_function (option) pluginLoop ::
  "error \<Rightarrow> Context \<Rightarrow> (nat \<Rightarrow> error + 'h) \<Rightarrow> nat \<Rightarrow> poll_effect list
    \<Rightarrow> ((error + 'h) \<times> poll_effect list) option" where
  "pluginLoop notAvailable ctx probe i fx =
     (if ctx i then Some (Inl notAvailable, fx)
      else (case probe i of
              Inr handle \<Rightarrow> Some (Inr handle, fx @ [CallPlugin])
            | Inl err \<Rightarrow>
                if \<not> ierrors_Is err notAvailable then Some (Inl err, fx @ [CallPlugin])
                else pluginLoop notAvailable ctx probe (Suc i) (fx @ [CallPlugin, Sleep (1 * Second)])))"

declare pluginLoop.simps [code]

definition Indexer ::
  "error + 'nc \<Rightarrow> Context \<Rightarrow> ('nc \<Rightarrow> nat \<Rightarrow> error + 'h) \<Rightarrow> ((error + 'h) \<times> poll_effect list) option" where
  "Indexer INXNodeClient ctx indexerOf =
     (case INXNodeClient of
        Inl err \<Rightarrow> Some (Inl err, [])
      | Inr nodeClient \<Rightarrow> pluginLoop ErrIndexerPluginNotAvailable ctx (indexerOf nodeClient) 0 [])"

definition EventAPI ::
  "error + 'nc \<Rightarrow> Context \<Rightarrow> ('nc \<Rightarrow> nat \<Rightarrow> error + 'h) \<Rightarrow> ((error + 'h) \<times> poll_effect list) option" where
  "EventAPI INXNodeClient ctx eventAPIOf =
     (case INXNodeClient of
        Inl err \<Rightarrow> Some (Inl err, [])
      | Inr nodeClient \<Rightarrow> pluginLoop ErrMQTTPluginNotAvailable ctx (eventAPIOf nodeClient) 0 [])"

definition sleeps :: "poll_effect list \<Rightarrow> Duration list" where
  "sleeps fx = [d. Sleep d \<leftarrow> fx]"

definition attempts :: "poll_effect list \<Rightarrow> nat" where
  "attempts fx = length [e \<leftarrow> fx. e = CallPlugin]"

section \<open>The bridge and its connection\<close>

text \<open>
  The fields of \<^verbatim>\<open>nodeBridge\<close> that \<^verbatim>\<open>Connect\<close> and the status cache write. A pointer
  field is an \<open>option\<close> (\<open>None\<close> for \<^verbatim>\<open>nil\<close>). Of the node configuration the model keeps
  the protocol parameters of the committed API, of those the network name.
  \<^verbatim>\<open>iotago.SlotIndex\<close> and \<^verbatim>\<open>iotago.EpochIndex\<close> are 32-bit unsigned integers.
\<close>

datatype ClientConn = ClientConn string

datatype INXClient = NewINXClient ClientConn

record ProtocolParameters =
  NetworkName :: string

record NodeConfiguration =
  CommittedParameters :: ProtocolParameters

datatype EpochBasedProvider = NewEpochBasedProvider | ProviderOf ProtocolParameters

record Commitment =
  CommitmentID :: string
  Slot :: "32 word"

record NodeStatus =
  GetIsHealthy :: bool
  GetLatestCommitment :: Commitment
  GetLatestFinalizedCommitment :: Commitment
  GetPruningEpoch :: "32 word"

record nodeBridge =
  targetNetworkName :: string
  conn :: "ClientConn option"
  client :: "INXClient option"
  nodeConfig :: "NodeConfiguration option"
  apiProvider :: EpochBasedProvider
  nodeStatus :: "NodeStatus option"
  latestCommitment :: "Commitment option"
  latestFinalizedCommitment :: "Commitment option"

definition WithTargetNetworkName :: "string \<Rightarrow> nodeBridge \<Rightarrow> nodeBridge" where
  "WithTargetNetworkName name n = n\<lparr>targetNetworkName := name\<rparr>"

definition New :: "(nodeBridge \<Rightarrow> nodeBridge) list \<Rightarrow> nodeBridge" where
  "New opts =
     fold (\<lambda>opt n. opt n) opts
       \<lparr>targetNetworkName = [], conn = None, client = None, nodeConfig = None,
        apiProvider = NewEpochBasedProvider, nodeStatus = None, latestCommitment = None,
        latestFinalizedCommitment = None\<rparr>"

definition APIProvider :: "NodeConfiguration \<Rightarrow> EpochBasedProvider" where
  "APIProvider config = ProviderOf (CommittedParameters config)"

text \<open>
  What the bridge does to the world, in order: the dial, log lines, calls of the node's
  RPCs, waits between retries, notifications of the listeners, the close of the connection.
\<close>

datatype notification =
    LatestCommitmentChanged Commitment
  | LatestFinalizedCommitmentChanged Commitment

datatype effect =
    Dial string
  | LogInfo string
  | CallReadNodeConfiguration nat
  | Backoff Duration
  | CallReadNodeStatus
  | Trigger notification
  | CloseConnection

text \<open>
  The node as \<^verbatim>\<open>Connect\<close> meets it: what the dial returns, what the \<open>i\<close>-th attempt
  to read the configuration returns, what the status read returns.
\<close>

record node =
  dialResult :: "error + ClientConn"
  configAttempt :: "nat \<Rightarrow> error + NodeConfiguration"
  statusResult :: "error + NodeStatus"

text \<open>The backoff closure of \<^verbatim>\<open>Connect\<close>: it logs and answers one second.\<close>

definition retryBackoff :: "nat \<Rightarrow> Duration \<times> effect list" where
  "retryBackoff attempt = (1 * Second, [LogInfo ''> retrying INX connection to node ...''])"

text \<open>
  Modelled from the spec: the retry around \<^verbatim>\<open>ReadNodeConfiguration\<close>, which the
  interceptor installed by \<^verbatim>\<open>grpcretry.UnaryClientInterceptor\<close> performs under the options
  \<^verbatim>\<open>WithMax(maxConnectionAttempts)\<close> and \<^verbatim>\<open>WithBackoff(retryBackoff)\<close>; the
  interceptor is not part of the sources. In the spec's words the request is made "with a
  retry policy bounded by \<^verbatim>\<open>maxAttempts\<close>, using a fixed one-second backoff between
  attempts, logging a notice on each retry. Exhausting attempts returns the last error."
  \<open>retryCall call backoff attempt further\<close> makes attempt number \<open>attempt\<close> and up to \<open>further\<close>
  further ones; the request is made at least once.
\<close>

fun retryCall ::
  "(nat \<Rightarrow> error + 'a) \<Rightarrow> (nat \<Rightarrow> Duration \<times> effect list) \<Rightarrow> nat \<Rightarrow> nat \<Rightarrow> (error + 'a) \<times> effect list" where
  "retryCall call backoff attempt 0 = (call attempt, [CallReadNodeConfiguration attempt])"
| "retryCall call backoff attempt (Suc further) =
     (case call attempt of
        Inr reply \<Rightarrow> (Inr reply, [CallReadNodeConfiguration attempt])
      | Inl err \<Rightarrow>
          (case backoff (Suc attempt) of
             (wait, logged) \<Rightarrow>
               (case retryCall call backoff (Suc attempt) further of
                  (r, fx) \<Rightarrow> (r, CallReadNodeConfiguration attempt # logged @ Backoff wait # fx))))"

definition ReadNodeConfiguration :: "node \<Rightarrow> nat \<Rightarrow> (error + NodeConfiguration) \<times> effect list" where
  "ReadNodeConfiguration env maxConnectionAttempts =
     retryCall (configAttempt env) retryBackoff 0 (maxConnectionAttempts - 1)"

text \<open>
  Modelled from the spec: \<^verbatim>\<open>processNodeStatus\<close>, which is not part of the sources. In
  the spec's words: "derive an updated Node Status Snapshot (replacing the whole value,
  never mutating the previous one in place), [...] store it, [...] then invoke the status
  changed listeners with the new commitment value; if the finalized commitment component
  differs from the previous snapshot's, additionally invoke the finalized status changed
  listeners with the new finalized commitment", where the listener "fires iff the finalized
  commitment ID differs from the prior snapshot's". The spec names no failure of this step.
\<close>

definition finalizedChanged :: "nodeBridge \<Rightarrow> NodeStatus \<Rightarrow> bool" where
  "finalizedChanged n status =
     (case latestFinalizedCommitment n of
        None \<Rightarrow> True
      | Some previous \<Rightarrow> CommitmentID previous \<noteq> CommitmentID (GetLatestFinalizedCommitment status))"

definition processNodeStatus :: "nodeBridge \<Rightarrow> NodeStatus \<Rightarrow> error option \<times> nodeBridge \<times> effect list" where
  "processNodeStatus n status =
     (None,
      n\<lparr>nodeStatus := Some status,
        latestCommitment := Some (GetLatestCommitment status),
        latestFinalizedCommitment := Some (GetLatestFinalizedCommitment status)\<rparr>,
      Trigger (LatestCommitmentChanged (GetLatestCommitment status)) #
      (if finalizedChanged n status
       then [Trigger (LatestFinalizedCommitmentChanged (GetLatestFinalizedCommitment status))]
       else []))"

text \<open>
  Modelled from the spec: the read accessors, which are not part of the sources either;
  they "copy out the needed field" of "the most recently committed snapshot".
\<close>

definition LatestCommitment :: "nodeBridge \<Rightarrow> Commitment option" where
  "LatestCommitment n = latestCommitment n"

definition LatestFinalizedCommitment :: "nodeBridge \<Rightarrow> Commitment option" where
  "LatestFinalizedCommitment n = latestFinalizedCommitment n"

text \<open>
  \<^verbatim>\<open>Connect\<close>. The result is the returned error, the bridge as the call leaves it and the
  effects in order. \<^verbatim>\<open>maxConnectionAttempts\<close> is a \<^verbatim>\<open>uint\<close>; nothing is computed
  with it but the bound of the retry. The check of the network name reads the provider
  that the line before it stored, that is the provider of the configuration just fetched.
\<close>

definition mismatch :: "string \<Rightarrow> string \<Rightarrow> error" where
  "mismatch networkName target =
     Errorf ''network name mismatch, networkName: \"%s\", targetNetworkName: \"%s\"''
       [networkName, target]"

definition Connect :: "node \<Rightarrow> nodeBridge \<Rightarrow> string \<Rightarrow> nat \<Rightarrow> error option \<times> nodeBridge \<times> effect list" where
  "Connect env n address maxConnectionAttempts =
     (case dialResult env of
        Inl err \<Rightarrow> (Some err, n, [Dial address])
      | Inr c \<Rightarrow>
          (let n1 = n\<lparr>conn := Some c, client := Some (NewINXClient c)\<rparr>;
               fx1 = [Dial address, LogInfo ''Connecting to node and reading node configuration ...'']
           in case ReadNodeConfiguration env maxConnectionAttempts of
                (Inl err, fx2) \<Rightarrow> (Some err, n1, fx1 @ fx2)
              | (Inr config, fx2) \<Rightarrow>
                  (let n2 = n1\<lparr>nodeConfig := Some config, apiProvider := APIProvider config\<rparr>;
                       networkName = NetworkName (CommittedParameters config)
                   in if targetNetworkName n2 \<noteq> [] \<and> targetNetworkName n2 \<noteq> networkName
                      then (Some (mismatch networkName (targetNetworkName n2)), n2, fx1 @ fx2)
                      else (let fx3 = fx1 @ fx2 @ [LogInfo ''Reading node status ...'', CallReadNodeStatus]
                            in case statusResult env of
                                 Inl err \<Rightarrow> (Some err, n2, fx3)
                               | Inr status \<Rightarrow>
                                   (case processNodeStatus n2 status of
                                      (r, n3, fx4) \<Rightarrow> (r, n3, fx3 @ fx4))))))"

section \<open>The status cache over a sequence of updates\<close>

text \<open>
  The background subscription hands every status update to \<^verbatim>\<open>processNodeStatus\<close>, in
  the order of arrival. \<open>snapshots n updates\<close> lists the bridge after each update.
\<close>

fun snapshots :: "nodeBridge \<Rightarrow> NodeStatus list \<Rightarrow> nodeBridge list" where
  "snapshots n [] = []"
| "snapshots n (status # later) =
     (case processNodeStatus n status of (r, n', fx) \<Rightarrow> n' # snapshots n' later)"

definition finalizedBelowLatest :: "nodeBridge \<Rightarrow> bool" where
  "finalizedBelowLatest n =
     (case (LatestFinalizedCommitment n, LatestCommitment n) of
        (Some finalized, Some latest) \<Rightarrow> Slot finalized \<le> Slot latest
      | (Some finalized, None) \<Rightarrow> False
      | (None, _) \<Rightarrow> True)"

fun notBelow :: "Commitment option \<Rightarrow> Commitment option \<Rightarrow> bool" where
  "notBelow None later = True"
| "notBelow (Some earlier) None = False"
| "notBelow (Some earlier) (Some later) = (Slot earlier \<le> Slot later)"

definition notRegressed :: "nodeBridge \<Rightarrow> nodeBridge \<Rightarrow> bool" where
  "notRegressed n n' =
     (notBelow (LatestCommitment n) (LatestCommitment n') \<and>
      notBelow (LatestFinalizedCommitment n) (LatestFinalizedCommitment n'))"

definition statusOrdered :: "NodeStatus \<Rightarrow> NodeStatus \<Rightarrow> bool" where
  "statusOrdered u v =
     (Slot (GetLatestCommitment u) \<le> Slot (GetLatestCommitment v) \<and>
      Slot (GetLatestFinalizedCommitment u) \<le> Slot (GetLatestFinalizedCommitment v))"

definition statusConsistent :: "NodeStatus \<Rightarrow> bool" where
  "statusConsistent u = (Slot (GetLatestFinalizedCommitment u) \<le> Slot (GetLatestCommitment u))"

section \<open>Run: the two tasks and the close of the connection\<close>

text \<open>
  \<^verbatim>\<open>Run\<close> derives the context \<^verbatim>\<open>c\<close> from its argument, starts a goroutine that calls
  \<^verbatim>\<open>listenToNodeStatus(c)\<close> and then \<^verbatim>\<open>cancel()\<close>, waits on \<^verbatim>\<open>c.Done()\<close> and
  closes the connection. The two tasks run interleaved; the state holds where each of them
  stands, whether the context given to \<^verbatim>\<open>Run\<close> is cancelled and whether \<^verbatim>\<open>cancel()\<close>
  was called. \<open>closes\<close> lists, for every \<^verbatim>\<open>conn.Close()\<close>, where the background task
  stood at that moment and whether the context given to \<^verbatim>\<open>Run\<close> was cancelled then.
\<close>

datatype listener = Listening | Stopped | Finished

datatype runner = Waiting | Woken | Returned

record run_state =
  ctxCancelled :: bool
  cancelCalled :: bool
  listenerAt :: listener
  runnerAt :: runner
  closes :: "(listener \<times> bool) list"

text \<open>
  \<open>Run alreadyCancelled\<close> is the state right after the \<^verbatim>\<open>go\<close> statement: the
  goroutine is about to listen, \<^verbatim>\<open>Run\<close> is about to wait, nothing is closed.
\<close>

definition Run :: "bool \<Rightarrow> run_state" where
  "Run alreadyCancelled =
     \<lparr>ctxCancelled = alreadyCancelled, cancelCalled = False, listenerAt = Listening,
      runnerAt = Waiting, closes = []\<rparr>"

text \<open>\<^verbatim>\<open>c\<close> is done when its parent is cancelled or its own \<^verbatim>\<open>cancel\<close> was called.\<close>

definition c_Done :: "run_state \<Rightarrow> bool" where
  "c_Done s = (ctxCancelled s \<or> cancelCalled s)"

text \<open>
  The steps. \<open>CancelCtx\<close>: somebody cancels the context given to \<^verbatim>\<open>Run\<close>.
  \<open>ListenReturns\<close>: \<^verbatim>\<open>listenToNodeStatus\<close> returns, with or without an error (the stream
  may end at any time). \<open>CallCancel\<close>: the goroutine calls \<^verbatim>\<open>cancel()\<close> and ends.
  \<open>ReceiveDone\<close>: the receive from \<^verbatim>\<open>c.Done()\<close> completes, which needs \<^verbatim>\<open>c\<close> done.
  \<open>CloseConn\<close>: \<^verbatim>\<open>n.conn.Close()\<close>, after which \<^verbatim>\<open>Run\<close> returns. A step that is not
  enabled in a state yields \<open>None\<close>.
\<close>

datatype action = CancelCtx | ListenReturns | CallCancel | ReceiveDone | CloseConn

fun step :: "action \<Rightarrow> run_state \<Rightarrow> run_state option" where
  "step CancelCtx s = Some (s\<lparr>ctxCancelled := True\<rparr>)"
| "step ListenReturns s =
     (if listenerAt s = Listening then Some (s\<lparr>listenerAt := Stopped\<rparr>) else None)"
| "step CallCancel s =
     (if listenerAt s = Stopped then Some (s\<lparr>listenerAt := Finished, cancelCalled := True\<rparr>)
      else None)"
| "step ReceiveDone s =
     (if runnerAt s = Waiting \<and> c_Done s then Some (s\<lparr>runnerAt := Woken\<rparr>) else None)"
| "step CloseConn s =
     (if runnerAt s = Woken
      then Some (s\<lparr>runnerAt := Returned, closes := closes s @ [(listenerAt s, ctxCancelled s)]\<rparr>)
      else None)"

fun exec :: "action list \<Rightarrow> run_state \<Rightarrow> run_state option" where
  "exec [] s = Some s"
| "exec (a # as) s = (case step a s of None \<Rightarrow> None | Some s' \<Rightarrow> exec as s')"

section \<open>Notions used in the statements\<close>

text \<open>
  \<open>notAvailableAt\<close>: the \<open>j\<close>-th call of the accessor fails with the sentinel (possibly
  wrapped). \<open>retriedUntil\<close>: the first \<open>k\<close> rounds of a poller all found the context live
  and the plugin not available. \<open>retries k\<close> are the effects of \<open>k\<close> such rounds.
  \<open>isPoller\<close> names the two pollers with their sentinels.
\<close>

definition notAvailableAt :: "error \<Rightarrow> (nat \<Rightarrow> error + 'h) \<Rightarrow> nat \<Rightarrow> bool" where
  "notAvailableAt notAvailable probe j =
     (case probe j of Inl err \<Rightarrow> ierrors_Is err notAvailable | Inr handle \<Rightarrow> False)"

definition retriedUntil :: "error \<Rightarrow> Context \<Rightarrow> (nat \<Rightarrow> error + 'h) \<Rightarrow> nat \<Rightarrow> bool" where
  "retriedUntil notAvailable ctx probe k = (\<forall>j<k. \<not> ctx j \<and> notAvailableAt notAvailable probe j)"

fun retries :: "nat \<Rightarrow> poll_effect list" where
  "retries 0 = []"
| "retries (Suc k) = CallPlugin # Sleep (1 * Second) # retries k"

definition isPoller ::
  "(error + 'nc \<Rightarrow> Context \<Rightarrow> ('nc \<Rightarrow> nat \<Rightarrow> error + 'h) \<Rightarrow> ((error + 'h) \<times> poll_effect list) option)
    \<Rightarrow> error \<Rightarrow> bool" where
  "isPoller poller notAvailable =
     ((poller = Indexer \<and> notAvailable = ErrIndexerPluginNotAvailable) \<or>
      (poller = EventAPI \<and> notAvailable = ErrMQTTPluginNotAvailable))"

section \<open>Example inputs\<close>

text \<open>
  A consumer that adds up the items and fails on one of them; a block decoder that fails
  on empty data, with a consumer that adds up what was decoded; a plugin accessor that is
  unavailable twice and then answers.
\<close>

definition failOn :: "nat \<Rightarrow> nat \<Rightarrow> nat \<Rightarrow> outcome \<times> nat" where
  "failOn bad x s = (if x = bad then Returns (Some (Errorf ''bad item'' [])) else Returns None, s + x)"

definition decodeLength :: "nat list \<Rightarrow> error + nat" where
  "decodeLength raw = (if raw = [] then Inl (Errorf ''no block data'' []) else Inr (length raw))"

definition countBlock :: "nat \<Rightarrow> nat list \<Rightarrow> nat \<Rightarrow> outcome \<times> nat" where
  "countBlock decoded raw s = (Returns None, s + decoded)"

definition twiceUnavailable :: "error \<Rightarrow> unit \<Rightarrow> nat \<Rightarrow> error + nat" where
  "twiceUnavailable notAvailable nodeClient i =
     (if i < 2 then Inl (Wrapped ''plugin'' notAvailable) else Inr 7)"

section \<open>Notions used in the statements about Connect\<close>




definition dialled :: "ClientConn \<Rightarrow> nodeBridge \<Rightarrow> nodeBridge" where
  "dialled c n = n\<lparr>conn := Some c, client := Some (NewINXClient c)\<rparr>"

definition configured :: "ClientConn \<Rightarrow> NodeConfiguration \<Rightarrow> nodeBridge \<Rightarrow> nodeBridge" where
  "configured c config n = (dialled c n)\<lparr>nodeConfig := Some config, apiProvider := APIProvider config\<rparr>"

definition fetching :: "string \<Rightarrow> effect list" where
  "fetching address =
     [Dial address, LogInfo ''Connecting to node and reading node configuration ...'']"

definition reading :: "effect list" where
  "reading = [LogInfo ''Reading node status ...'', CallReadNodeStatus]"

section \<open>Example node\<close>

text \<open>
  A node on the network \<open>testnet\<close> whose configuration request fails with
  \<^verbatim>\<open>Unavailable\<close> a given number of times before it succeeds, with a status at slot 5,
  finalized at slot 3; and the same node with a status read that fails.
\<close>

definition testnetConfig :: NodeConfiguration where
  "testnetConfig = \<lparr>CommittedParameters = \<lparr>NetworkName = ''testnet''\<rparr>\<rparr>"

definition statusAt :: "32 word \<Rightarrow> 32 word \<Rightarrow> NodeStatus" where
  "statusAt latest finalized =
     \<lparr>GetIsHealthy = True,
      GetLatestCommitment = \<lparr>CommitmentID = ''latest'', Slot = latest\<rparr>,
      GetLatestFinalizedCommitment = \<lparr>CommitmentID = ''finalized'', Slot = finalized\<rparr>,
      GetPruningEpoch = 0\<rparr>"

definition flakyNode :: "nat \<Rightarrow> node" where
  "flakyNode failures =
     \<lparr>dialResult = Inr (ClientConn ''localhost:9029''),
      configAttempt = (\<lambda>i. if i < failures then Inl (GRPCStatus Unavailable ''starting'')
                            else Inr testnetConfig),
      statusResult = Inr (statusAt 5 3)\<rparr>"

definition statuslessNode :: node where
  "statuslessNode = (flakyNode 0)\<lparr>statusResult := Inl (GRPCStatus Unavailable ''no status'')\<rparr>"

section \<open>Notions used in the statements about Run\<close>

text \<open>
  \<open>closedInOrder\<close>: the connection was closed at most once, exactly once when
  \<^verbatim>\<open>Run\<close> has returned, and at the close the background task had finished or the
  context given to \<^verbatim>\<open>Run\<close> was cancelled. \<open>runInvariant\<close> adds what the induction
  over the steps needs.
\<close>

definition closedInOrder :: "run_state \<Rightarrow> bool" where
  "closedInOrder s =
     ((runnerAt s = Returned \<longleftrightarrow> length (closes s) = 1) \<and> length (closes s) \<le> 1 \<and>
      (\<forall>(at, cancelled)\<in>set (closes s). at = Finished \<or> cancelled))"

definition runInvariant :: "run_state \<Rightarrow> bool" where
  "runInvariant s =
     ((runnerAt s \<noteq> Returned \<longrightarrow> closes s = []) \<and>
      (runnerAt s = Woken \<longrightarrow> c_Done s) \<and>
      (cancelCalled s \<longrightarrow> listenerAt s = Finished) \<and>
      closedInOrder s)"

section \<open>Properties of the stream consumer\<close>

text \<open>
  As long as the context is live and the consumer returns \<^verbatim>\<open>nil\<close>, the loop hands
  over item after item and goes on with the rest of the stream.
\<close>

lemma loop_delivers_prefix:
  "consume_all f s items = Some s' \<Longrightarrow> (\<forall>i<length items. \<not> ctx (length handled + i)) \<Longrightarrow>
   ListenToStream_loop ctx f handled s (map Item items @ rest) =
   ListenToStream_loop ctx f (handled @ items) s' rest"
proof (induction items arbitrary: handled s)
  case Nil
  then show ?case by simp
next
  case (Cons x xs)
  from Cons.prems(2) have live: "\<not> ctx (length handled)" by force
  from Cons.prems(1) obtain s1 where fx: "f x s = (Returns None, s1)" and rest: "consume_all f s1 xs = Some s'"
    by (auto split: prod.splits outcome.splits option.splits)
  have "\<forall>i<length xs. \<not> ctx (length (handled @ [x]) + i)"
  proof (intro allI impI)
    fix i assume "i < length xs"
    then have "Suc i < length (x # xs)" by simp
    with Cons.prems(2) have "\<not> ctx (length handled + Suc i)" by blast
    then show "\<not> ctx (length (handled @ [x]) + i)" by simp
  qed
  with Cons.IH [OF rest] have
    "ListenToStream_loop ctx f (handled @ [x]) s1 (map Item xs @ rest) =
     ListenToStream_loop ctx f ((handled @ [x]) @ xs) s' rest" by blast
  with live fx show ?case by simp
qed

lemma ListenToStream_delivers_prefix:
  assumes "consume_all f s items = Some s'" and "\<forall>i<length items. \<not> ctx i"
  shows "ListenToStream ctx (map Item items @ rest) f s = ListenToStream_loop ctx f items s' rest"
  using loop_delivers_prefix [where handled = "[]", OF assms(1)] assms(2)
  by (simp add: ListenToStream_def)

lemma ListenToStream_stops_at:
  assumes "consume_all f s items = Some s1" and "\<forall>i\<le>length items. \<not> ctx i"
    and "f item s1 = (r, s')" and "r \<noteq> Returns None"
  shows "ListenToStream ctx (map Item items @ Item item # later) f s =
         Some \<lparr>returned = r, calls = items @ [item], final = s', unread = later\<rparr>"
proof -
  from assms(2) have pre: "\<forall>i<length items. \<not> ctx i" and here: "\<not> ctx (length items)" by auto
  show ?thesis
    unfolding ListenToStream_delivers_prefix [OF assms(1) pre]
    using here assms(3,4) by (cases r) (auto split: option.splits)
qed

text \<open>
  A run reads the stream up to and including the end signal only if the consumer returned
  \<^verbatim>\<open>nil\<close> on every item and no inspection found the context cancelled.
\<close>

lemma loop_read_all:
  "ListenToStream_loop ctx f handled s (map Item items @ RecvErr err # later) = Some res \<Longrightarrow>
   unread res = later \<Longrightarrow>
   consume_all f s items \<noteq> None \<and> (\<forall>i<length items. \<not> ctx (length handled + i))"
proof (induction items arbitrary: handled s)
  case Nil
  then show ?case by simp
next
  case (Cons x xs)
  have longer: "map Item xs @ RecvErr err # later \<noteq> later"
  proof
    assume "map Item xs @ RecvErr err # later = later"
    then have "length (map Item xs @ RecvErr err # later) = length later" by simp
    then show False by simp
  qed
  show ?case
  proof (cases "ctx (length handled)")
    case True
    with Cons.prems longer show ?thesis by auto
  next
    case False
    obtain r s1 where fx: "f x s = (r, s1)" by (cases "f x s")
    show ?thesis
    proof (cases "r = Returns None")
      case True
      with False fx Cons.prems(1) have
        "ListenToStream_loop ctx f (handled @ [x]) s1 (map Item xs @ RecvErr err # later) = Some res"
        by simp
      from Cons.IH [OF this Cons.prems(2)] have
        ih: "consume_all f s1 xs \<noteq> None" "\<forall>i<length xs. \<not> ctx (length (handled @ [x]) + i)" by auto
      have "\<forall>i<length (x # xs). \<not> ctx (length handled + i)"
      proof (intro allI impI)
        fix i assume "i < length (x # xs)"
        then show "\<not> ctx (length handled + i)"
          using False ih(2) by (cases i) auto
      qed
      with ih(1) fx True show ?thesis by simp
    next
      case stop: False
      with False fx Cons.prems(1) have "unread res = map Item xs @ RecvErr err # later"
        by (cases r) (auto split: option.splits)
      with Cons.prems(2) longer show ?thesis by simp
    qed
  qed
qed

lemma ListenToStream_read_all:
  assumes "ListenToStream ctx (map Item items @ RecvErr err # later) f s = Some res"
    and "unread res = later"
  shows "consume_all f s items \<noteq> None \<and> (\<forall>i<length items. \<not> ctx i)"
  using loop_read_all [of ctx f "[]" s items err later res] assms
  by (simp add: ListenToStream_def)

text \<open>
  C2. When the receive function delivers the items \<open>items\<close> and then a clean end of
  stream (\<^verbatim>\<open>io.EOF\<close>, or an error whose gRPC code is \<^verbatim>\<open>Canceled\<close>),
  \<^verbatim>\<open>ListenToStream\<close> returns \<^verbatim>\<open>nil\<close> and has invoked the consumer exactly once per
  item, in the order of delivery; whatever the stream holds after the end signal is never
  read, so the consumer is not invoked for it. The first part says that the call returns so
  whenever the consumer accepts every item and the context stays live; the second part
  that every call which has read the sequence up to the end signal returned so.
\<close>

theorem ListenToStream_clean_end:
  assumes "stream_closed err"
  shows "(consume_all consumerFunc s items = Some s' \<and> (\<forall>i<length items. \<not> ctx i) \<longrightarrow>
          ListenToStream ctx (map Item items @ RecvErr err # later) consumerFunc s =
            Some \<lparr>returned = Returns None, calls = items, final = s', unread = later\<rparr>) \<and>
         (ListenToStream ctx (map Item items @ RecvErr err # later) consumerFunc s = Some res \<and>
          unread res = later \<longrightarrow>
          returned res = Returns None \<and> calls res = items)"
proof (rule conjI; rule impI)
  assume h: "consume_all consumerFunc s items = Some s' \<and> (\<forall>i<length items. \<not> ctx i)"
  then have a: "consume_all consumerFunc s items = Some s'" and b: "\<forall>i<length items. \<not> ctx i"
    by auto
  show "ListenToStream ctx (map Item items @ RecvErr err # later) consumerFunc s =
            Some \<lparr>returned = Returns None, calls = items, final = s', unread = later\<rparr>"
    unfolding ListenToStream_delivers_prefix [OF a b] using assms by simp
next
  assume h: "ListenToStream ctx (map Item items @ RecvErr err # later) consumerFunc s = Some res \<and>
          unread res = later"
  then have run: "ListenToStream ctx (map Item items @ RecvErr err # later) consumerFunc s = Some res"
    and all: "unread res = later" by auto
  from ListenToStream_read_all [OF run all] obtain s1 where
    a: "consume_all consumerFunc s items = Some s1" and b: "\<forall>i<length items. \<not> ctx i" by auto
  have "ListenToStream ctx (map Item items @ RecvErr err # later) consumerFunc s =
            Some \<lparr>returned = Returns None, calls = items, final = s1, unread = later\<rparr>"
    unfolding ListenToStream_delivers_prefix [OF a b] using assms by simp
  with run have "res = \<lparr>returned = Returns None, calls = items, final = s1, unread = later\<rparr>"
    by simp
  then show "returned res = Returns None \<and> calls res = items" by simp
qed

theorem ListenToStream_clean_end_witness:
  "ListenToStream Background [Item (4::nat), Item 9, RecvErr EOF, Item 1] (\<lambda>x s. (Returns None, s + x)) (0::nat) =
     Some \<lparr>returned = Returns None, calls = [4, 9], final = 13, unread = [Item 1]\<rparr>"
  using ListenToStream_clean_end [of EOF "\<lambda>x s. (Returns None, s + x)" "0::nat" "[4, 9]" 13 Background "[Item 1]"]
  by (simp add: stream_closed_def Background_def)

text \<open>
  C3. When the context is found cancelled right after the receive function has returned an
  item, \<^verbatim>\<open>ListenToStream\<close> returns \<^verbatim>\<open>nil\<close> without invoking the consumer for that
  item or for any later one: the received item is dropped, the later ones are not read.
\<close>

theorem ListenToStream_cancelled_drops:
  assumes "consume_all consumerFunc s items = Some s'"
    and "\<forall>i<length items. \<not> ctx i"
    and "ctx (length items)"
  shows "ListenToStream ctx (map Item items @ Item item # later) consumerFunc s =
         Some \<lparr>returned = Returns None, calls = items, final = s', unread = later\<rparr>"
  unfolding ListenToStream_delivers_prefix [OF assms(1,2)] using assms(3) by simp

theorem ListenToStream_cancelled_drops_witness:
  "ListenToStream (\<lambda>i. 2 \<le> i) [Item (4::nat), Item 9, Item 7, Item 1, RecvErr EOF] (\<lambda>x s. (Returns None, s + x)) (0::nat) =
     Some \<lparr>returned = Returns None, calls = [4, 9], final = 13, unread = [Item 1, RecvErr EOF]\<rparr>"
  using ListenToStream_cancelled_drops [of "\<lambda>x s. (Returns None, s + x)" "0::nat" "[4, 9]" 13 "\<lambda>i. 2 \<le> i" 7 "[Item 1, RecvErr EOF]"]
  by simp

text \<open>
  C4. When the consumer returns an error on an item, \<^verbatim>\<open>ListenToStream\<close> returns that
  very error and the consumer is not invoked for the next item; when the receive function
  returns an error that is neither \<^verbatim>\<open>io.EOF\<close> nor of gRPC code \<^verbatim>\<open>Canceled\<close>,
  \<^verbatim>\<open>ListenToStream\<close> returns that very error and the consumer is not invoked again.
\<close>

theorem ListenToStream_propagates_errors:
  "(consume_all consumerFunc s items = Some s1 \<and> (\<forall>i\<le>length items. \<not> ctx i) \<and>
    consumerFunc item s1 = (Returns (Some err), s') \<longrightarrow>
    ListenToStream ctx (map Item items @ Item item # later) consumerFunc s =
      Some \<lparr>returned = Returns (Some err), calls = items @ [item], final = s', unread = later\<rparr>) \<and>
   (consume_all consumerFunc s items = Some s1 \<and> (\<forall>i<length items. \<not> ctx i) \<and>
    \<not> stream_closed err \<longrightarrow>
    ListenToStream ctx (map Item items @ RecvErr err # later) consumerFunc s =
      Some \<lparr>returned = Returns (Some err), calls = items, final = s1, unread = later\<rparr>)"
proof (intro conjI impI)
  assume h: "consume_all consumerFunc s items = Some s1 \<and> (\<forall>i\<le>length items. \<not> ctx i) \<and>
    consumerFunc item s1 = (Returns (Some err), s')"
  then show "ListenToStream ctx (map Item items @ Item item # later) consumerFunc s =
      Some \<lparr>returned = Returns (Some err), calls = items @ [item], final = s', unread = later\<rparr>"
    using ListenToStream_stops_at [of consumerFunc s items s1 ctx item "Returns (Some err)" s' later]
    by simp
next
  assume h: "consume_all consumerFunc s items = Some s1 \<and> (\<forall>i<length items. \<not> ctx i) \<and>
    \<not> stream_closed err"
  then have a: "consume_all consumerFunc s items = Some s1" and b: "\<forall>i<length items. \<not> ctx i"
    and c: "\<not> stream_closed err" by auto
  show "ListenToStream ctx (map Item items @ RecvErr err # later) consumerFunc s =
      Some \<lparr>returned = Returns (Some err), calls = items, final = s1, unread = later\<rparr>"
    unfolding ListenToStream_delivers_prefix [OF a b] using c by simp
qed

theorem ListenToStream_propagates_errors_witness:
  "ListenToStream Background [Item 4, Item 9, Item 7, Item 1, RecvErr EOF] (failOn 7) 0 =
     Some \<lparr>returned = Returns (Some (Errorf ''bad item'' [])), calls = [4, 9, 7], final = 20,
            unread = [Item 1, RecvErr EOF]\<rparr> \<and>
   ListenToStream Background [Item 4, Item 9, RecvErr (GRPCStatus Unavailable ''down''), Item 1] (failOn 7) 0 =
     Some \<lparr>returned = Returns (Some (GRPCStatus Unavailable ''down'')), calls = [4, 9], final = 13,
            unread = [Item 1]\<rparr>"
  using ListenToStream_propagates_errors [of "failOn 7" 0 "[4, 9]" 13 Background 7 "Errorf ''bad item'' []" 20 "[Item 1, RecvErr EOF]"]
    ListenToStream_propagates_errors [of "failOn 7" 0 "[4, 9]" 13 Background 7 "GRPCStatus Unavailable ''down''" 20 "[Item 1]"]
  by (simp add: failOn_def Background_def stream_closed_def)

text \<open>
  C9. A streamed block that the decoder rejects makes \<^verbatim>\<open>ListenToBlocks\<close> panic inside
  its per-item handler, with the decoder's error as the panic value; no error is returned to
  the caller, and the caller's consumer is not invoked for that block.
\<close>

theorem ListenToBlocks_panics:
  assumes "UnwrapBlock block = Inl err"
    and "consume_all (blockHandler UnwrapBlock consumer) s blocks = Some s1"
    and "\<forall>i\<le>length blocks. \<not> ctx i"
  shows "ListenToBlocks ctx UnwrapBlock (Inr (map Item blocks @ Item block # later)) consumer s =
         Some \<lparr>returned = Panics err, calls = blocks @ [block], final = s1, unread = later\<rparr>"
proof -
  from assms(1) have "blockHandler UnwrapBlock consumer block s1 = (Panics err, s1)"
    by (simp add: blockHandler_def MustUnwrapBlock_def)
  from ListenToStream_stops_at [OF assms(2,3) this] show ?thesis
    by (simp add: ListenToBlocks_def)
qed

theorem ListenToBlocks_panics_witness:
  "ListenToBlocks Background decodeLength (Inr [Item [1, 2], Item [], Item [3]]) countBlock 0 =
     Some \<lparr>returned = Panics (Errorf ''no block data'' []), calls = [[1, 2], []], final = 2,
            unread = [Item [3]]\<rparr>"
  using ListenToBlocks_panics [of decodeLength "[]" "Errorf ''no block data'' []" countBlock 0 "[[1, 2]]" 2
      Background "[Item [3]]"]
  by (simp add: decodeLength_def countBlock_def blockHandler_def MustUnwrapBlock_def Background_def)

section \<open>Properties of the capability pollers\<close>

lemma retries_snoc: "retries k @ [CallPlugin, Sleep (1 * Second)] = retries (Suc k)"
  by (induction k) simp_all

lemma sleeps_retries: "sleeps (retries k) = replicate k Second"
  by (induction k) (simp_all add: sleeps_def)

lemma attempts_retries: "attempts (retries k) = k"
  by (induction k) (simp_all add: attempts_def)

lemma pluginLoop_retries:
  "(\<forall>j<k. \<not> ctx (i + j) \<and> notAvailableAt na probe (i + j)) \<Longrightarrow>
   pluginLoop na ctx probe i fx = pluginLoop na ctx probe (i + k) (fx @ retries k)"
proof (induction k arbitrary: i fx)
  case 0
  then show ?case by simp
next
  case (Suc k)
  from Suc.prems have here: "\<not> ctx i" "notAvailableAt na probe i" by force+
  have "\<forall>j<k. \<not> ctx (Suc i + j) \<and> notAvailableAt na probe (Suc i + j)"
  proof (intro allI impI)
    fix j assume "j < k"
    then have "Suc j < Suc k" by simp
    with Suc.prems have "\<not> ctx (i + Suc j) \<and> notAvailableAt na probe (i + Suc j)" by blast
    then show "\<not> ctx (Suc i + j) \<and> notAvailableAt na probe (Suc i + j)" by simp
  qed
  from Suc.IH [OF this] have
    "pluginLoop na ctx probe (Suc i) (fx @ [CallPlugin, Sleep (1 * Second)]) =
     pluginLoop na ctx probe (Suc i + k) ((fx @ [CallPlugin, Sleep (1 * Second)]) @ retries k)" .
  moreover have "pluginLoop na ctx probe i fx =
     pluginLoop na ctx probe (Suc i) (fx @ [CallPlugin, Sleep (1 * Second)])"
    using here by (subst pluginLoop.simps) (auto simp: notAvailableAt_def split: sum.splits)
  ultimately show ?case by simp
qed

lemma pluginLoop_from_start:
  "retriedUntil na ctx probe k \<Longrightarrow>
   pluginLoop na ctx probe 0 [] = pluginLoop na ctx probe k (retries k)"
  using pluginLoop_retries [of k ctx 0 na probe "[]"] by (simp add: retriedUntil_def)

lemma pluginLoop_done: "ctx i \<Longrightarrow> pluginLoop na ctx probe i fx = Some (Inl na, fx)"
  by (subst pluginLoop.simps) simp

lemma pluginLoop_found:
  "\<not> ctx i \<Longrightarrow> probe i = Inr h \<Longrightarrow> pluginLoop na ctx probe i fx = Some (Inr h, fx @ [CallPlugin])"
  by (subst pluginLoop.simps) simp

lemma pluginLoop_other:
  "\<not> ctx i \<Longrightarrow> probe i = Inl err \<Longrightarrow> \<not> ierrors_Is err na \<Longrightarrow>
   pluginLoop na ctx probe i fx = Some (Inl err, fx @ [CallPlugin])"
  by (subst pluginLoop.simps) simp

lemma poller_unfold:
  "isPoller poller na \<Longrightarrow>
   poller c ctx accessor =
     (case c of Inl err \<Rightarrow> Some (Inl err, []) | Inr nc \<Rightarrow> pluginLoop na ctx (accessor nc) 0 [])"
  unfolding isPoller_def by (auto simp: Indexer_def EventAPI_def)

lemma poller_found:
  assumes "isPoller poller na" and "retriedUntil na ctx (accessor nc) k" and "\<not> ctx k"
    and "accessor nc k = Inr h"
  shows "poller (Inr nc) ctx accessor = Some (Inr h, retries k @ [CallPlugin])"
  using assms(3,4)
  by (simp add: poller_unfold [OF assms(1)] pluginLoop_from_start [OF assms(2)] pluginLoop_found)

lemma poller_done:
  assumes "isPoller poller na" and "retriedUntil na ctx (accessor nc) k" and "ctx k"
  shows "poller (Inr nc) ctx accessor = Some (Inl na, retries k)"
  using assms(3)
  by (simp add: poller_unfold [OF assms(1)] pluginLoop_from_start [OF assms(2)] pluginLoop_done)

lemma poller_other:
  assumes "isPoller poller na" and "retriedUntil na ctx (accessor nc) k" and "\<not> ctx k"
    and "accessor nc k = Inl err" and "\<not> ierrors_Is err na"
  shows "poller (Inr nc) ctx accessor = Some (Inl err, retries k @ [CallPlugin])"
  using assms(3,4,5)
  by (simp add: poller_unfold [OF assms(1)] pluginLoop_from_start [OF assms(2)] pluginLoop_other)

text \<open>
  C5, as amended. Let \<^verbatim>\<open>INXNodeClient\<close> have returned a node client. Then \<^verbatim>\<open>Indexer\<close>
  and \<^verbatim>\<open>EventAPI\<close> behave alike: after \<open>k\<close> rounds in which the context was live and
  the plugin not available (each round one call and one sleep of one second), a successful
  call returns the handle at once; a context that is done makes the poller return its
  "plugin not available" error; any other error of the call is returned at once, with no
  further call. Given a context that is cancelled from the start the poller returns "plugin
  not available" with no call and no sleep. With the plugin unavailable exactly twice and a
  context that is never done, the poller returns the handle after exactly two sleeps of one
  second. When \<^verbatim>\<open>INXNodeClient\<close> fails, its error is returned with no call and no
  sleep, whatever the context.
\<close>

theorem capability_pollers:
  assumes "isPoller poller notAvailable"
  shows "(retriedUntil notAvailable ctx (accessor nodeClient) k \<and> \<not> ctx k \<and>
            accessor nodeClient k = Inr handle \<longrightarrow>
          poller (Inr nodeClient) ctx accessor = Some (Inr handle, retries k @ [CallPlugin])) \<and>
         (retriedUntil notAvailable ctx (accessor nodeClient) k \<and> ctx k \<longrightarrow>
          poller (Inr nodeClient) ctx accessor = Some (Inl notAvailable, retries k)) \<and>
         (retriedUntil notAvailable ctx (accessor nodeClient) k \<and> \<not> ctx k \<and>
            accessor nodeClient k = Inl err \<and> \<not> ierrors_Is err notAvailable \<longrightarrow>
          poller (Inr nodeClient) ctx accessor = Some (Inl err, retries k @ [CallPlugin])) \<and>
         poller (Inr nodeClient) AlreadyCancelled accessor = Some (Inl notAvailable, []) \<and>
         (retriedUntil notAvailable Background (accessor nodeClient) 2 \<and>
            accessor nodeClient 2 = Inr handle \<longrightarrow>
          (\<exists>fx. poller (Inr nodeClient) Background accessor = Some (Inr handle, fx) \<and>
                sleeps fx = [1 * Second, 1 * Second])) \<and>
         poller (Inl failure) ctx accessor = Some (Inl failure, []) \<and>
         sleeps (retries k) = replicate k (1 * Second) \<and> attempts (retries k) = k"
proof -
  have a: "retriedUntil notAvailable ctx (accessor nodeClient) k \<and> \<not> ctx k \<and>
            accessor nodeClient k = Inr handle \<longrightarrow>
          poller (Inr nodeClient) ctx accessor = Some (Inr handle, retries k @ [CallPlugin])"
    using poller_found [OF assms] by blast
  have b: "retriedUntil notAvailable ctx (accessor nodeClient) k \<and> ctx k \<longrightarrow>
          poller (Inr nodeClient) ctx accessor = Some (Inl notAvailable, retries k)"
    using poller_done [OF assms] by blast
  have c: "retriedUntil notAvailable ctx (accessor nodeClient) k \<and> \<not> ctx k \<and>
            accessor nodeClient k = Inl err \<and> \<not> ierrors_Is err notAvailable \<longrightarrow>
          poller (Inr nodeClient) ctx accessor = Some (Inl err, retries k @ [CallPlugin])"
    using poller_other [OF assms] by blast
  have d: "poller (Inr nodeClient) AlreadyCancelled accessor = Some (Inl notAvailable, [])"
    using poller_done [OF assms, of AlreadyCancelled accessor nodeClient 0]
    by (simp add: retriedUntil_def AlreadyCancelled_def)
  have e: "retriedUntil notAvailable Background (accessor nodeClient) 2 \<and>
            accessor nodeClient 2 = Inr handle \<longrightarrow>
          (\<exists>fx. poller (Inr nodeClient) Background accessor = Some (Inr handle, fx) \<and>
                sleeps fx = [1 * Second, 1 * Second])"
  proof
    assume h: "retriedUntil notAvailable Background (accessor nodeClient) 2 \<and>
            accessor nodeClient 2 = Inr handle"
    then have r: "retriedUntil notAvailable Background (accessor nodeClient) 2"
      and h2: "accessor nodeClient 2 = Inr handle" by simp_all
    have live: "\<not> Background 2" by (simp add: Background_def)
    have "poller (Inr nodeClient) Background accessor =
        Some (Inr handle, retries 2 @ [CallPlugin])"
      using poller_found [of poller notAvailable Background accessor nodeClient 2 handle] assms r live h2
      by blast
    moreover have "sleeps (retries 2 @ [CallPlugin]) = [1 * Second, 1 * Second]"
      by (simp add: sleeps_def numeral_2_eq_2)
    ultimately show "\<exists>fx. poller (Inr nodeClient) Background accessor = Some (Inr handle, fx) \<and>
                sleeps fx = [1 * Second, 1 * Second]" by blast
  qed
  have f: "poller (Inl failure) ctx accessor = Some (Inl failure, [])"
    by (simp add: poller_unfold [OF assms])
  have g: "sleeps (retries k) = replicate k (1 * Second) \<and> attempts (retries k) = k"
    by (simp add: sleeps_retries attempts_retries)
  from a b c d e f g show ?thesis by blast
qed

theorem capability_pollers_witness:
  "Indexer (Inr ()) Background (twiceUnavailable ErrIndexerPluginNotAvailable) =
     Some (Inr 7, [CallPlugin, Sleep 1000000000, CallPlugin, Sleep 1000000000, CallPlugin]) \<and>
   EventAPI (Inr ()) (\<lambda>i. 1 \<le> i) (twiceUnavailable ErrMQTTPluginNotAvailable) =
     Some (Inl ErrMQTTPluginNotAvailable, [CallPlugin, Sleep 1000000000]) \<and>
   Indexer (Inr ()) AlreadyCancelled (twiceUnavailable ErrIndexerPluginNotAvailable) =
     Some (Inl ErrIndexerPluginNotAvailable, [])"
proof -
  have i: "isPoller Indexer ErrIndexerPluginNotAvailable"
    and m: "isPoller EventAPI ErrMQTTPluginNotAvailable"
    by (simp_all add: isPoller_def)
  have r2: "retriedUntil ErrIndexerPluginNotAvailable Background
      (twiceUnavailable ErrIndexerPluginNotAvailable ()) 2"
    by (simp add: retriedUntil_def Background_def notAvailableAt_def twiceUnavailable_def)
  have r1: "retriedUntil ErrMQTTPluginNotAvailable (\<lambda>i. 1 \<le> i)
      (twiceUnavailable ErrMQTTPluginNotAvailable ()) 1"
    by (simp add: retriedUntil_def notAvailableAt_def twiceUnavailable_def)
  show ?thesis
    using capability_pollers [OF i, of Background "twiceUnavailable ErrIndexerPluginNotAvailable" "()" 2 7]
      capability_pollers [OF m, of "\<lambda>i. 1 \<le> i" "twiceUnavailable ErrMQTTPluginNotAvailable" "()" 1]
      r2 r1
    by (simp add: Background_def twiceUnavailable_def Second_def numeral_2_eq_2)
qed

text \<open>
  C5 as stated fails when the node client cannot be created: under an already cancelled
  context \<^verbatim>\<open>Indexer\<close> then returns the error of \<^verbatim>\<open>INXNodeClient\<close>, not "plugin not
  available".
\<close>

theorem Indexer_without_node_client:
  "Indexer (Inl (GRPCStatus Unavailable ''node down'')) AlreadyCancelled
     (twiceUnavailable ErrIndexerPluginNotAvailable) =
   Some (Inl (GRPCStatus Unavailable ''node down''), [])"
  by (simp add: Indexer_def)

section \<open>Properties of Connect\<close>

lemma retryCall_again:
  "call attempt = Inl err \<Longrightarrow>
   retryCall call retryBackoff attempt (Suc further) =
     (case retryCall call retryBackoff (Suc attempt) further of
        (r, fx) \<Rightarrow>
          (r, CallReadNodeConfiguration attempt #
              LogInfo ''> retrying INX connection to node ...'' # Backoff (1 * Second) # fx))"
  by (simp add: retryBackoff_def)


lemma retryCall_effects:
  "retryCall call retryBackoff attempt further = (r, fx) \<Longrightarrow>
   CallReadNodeStatus \<notin> set fx \<and> CloseConnection \<notin> set fx"
proof (induction further arbitrary: attempt r fx)
  case 0
  then show ?case by auto
next
  case (Suc further)
  show ?case
  proof (cases "call attempt")
    case (Inr reply)
    with Suc.prems show ?thesis by auto
  next
    case (Inl err)
    obtain r' fx' where rest: "retryCall call retryBackoff (Suc attempt) further = (r', fx')"
      by (cases "retryCall call retryBackoff (Suc attempt) further")
    from Suc.IH [OF rest] have "CallReadNodeStatus \<notin> set fx' \<and> CloseConnection \<notin> set fx'" .
    with Suc.prems rest Inl show ?thesis
      by (auto simp: retryCall_again simp del: retryCall.simps)
  qed
qed

lemma ReadNodeConfiguration_effects:
  "ReadNodeConfiguration env m = (r, fx) \<Longrightarrow>
   CallReadNodeStatus \<notin> set fx \<and> CloseConnection \<notin> set fx"
  unfolding ReadNodeConfiguration_def by (rule retryCall_effects)



lemma Connect_fetch_fails:
  "dialResult env = Inr c \<Longrightarrow> ReadNodeConfiguration env m = (Inl err, fx) \<Longrightarrow>
   Connect env n address m = (Some err, dialled c n, fetching address @ fx)"
  by (simp add: Connect_def dialled_def fetching_def)

lemma Connect_mismatch:
  "dialResult env = Inr c \<Longrightarrow> ReadNodeConfiguration env m = (Inr config, fx) \<Longrightarrow>
   targetNetworkName n \<noteq> [] \<Longrightarrow> targetNetworkName n \<noteq> NetworkName (CommittedParameters config) \<Longrightarrow>
   Connect env n address m =
     (Some (mismatch (NetworkName (CommittedParameters config)) (targetNetworkName n)),
      configured c config n, fetching address @ fx)"
  by (simp add: Connect_def configured_def dialled_def fetching_def)

lemma Connect_status:
  "dialResult env = Inr c \<Longrightarrow> ReadNodeConfiguration env m = (Inr config, fx) \<Longrightarrow>
   targetNetworkName n = [] \<or> targetNetworkName n = NetworkName (CommittedParameters config) \<Longrightarrow>
   Connect env n address m =
     (case statusResult env of
        Inl err \<Rightarrow> (Some err, configured c config n, fetching address @ fx @ reading)
      | Inr status \<Rightarrow>
          (case processNodeStatus (configured c config n) status of
             (r, n3, fx4) \<Rightarrow> (r, n3, fetching address @ fx @ reading @ fx4)))"
  by (auto simp: Connect_def configured_def dialled_def fetching_def reading_def Let_def
      split: sum.splits prod.splits)







text \<open>
  C7. With the configuration retrieved: a target network name that is not empty and differs
  from the network name of the configuration makes \<^verbatim>\<open>Connect\<close> return the mismatch
  error right after the retrieval, with no further request for the configuration and
  without reading the node status; with an empty target network name \<^verbatim>\<open>Connect\<close>
  goes on to the status read whatever the network name of the node is.
\<close>

theorem Connect_network_name:
  assumes "dialResult env = Inr c" and "ReadNodeConfiguration env m = (Inr config, fx)"
  shows "(targetNetworkName n \<noteq> [] \<and> targetNetworkName n \<noteq> NetworkName (CommittedParameters config) \<longrightarrow>
          Connect env n address m =
            (Some (mismatch (NetworkName (CommittedParameters config)) (targetNetworkName n)),
             configured c config n, fetching address @ fx) \<and>
          CallReadNodeStatus \<notin> set (fetching address @ fx)) \<and>
         (targetNetworkName n = [] \<longrightarrow>
          Connect env n address m =
            (case statusResult env of
               Inl err \<Rightarrow> (Some err, configured c config n, fetching address @ fx @ reading)
             | Inr status \<Rightarrow>
                 (case processNodeStatus (configured c config n) status of
                    (r, n3, fx4) \<Rightarrow> (r, n3, fetching address @ fx @ reading @ fx4))))"
proof (intro conjI impI)
  assume h: "targetNetworkName n \<noteq> [] \<and> targetNetworkName n \<noteq> NetworkName (CommittedParameters config)"
  then show "Connect env n address m =
            (Some (mismatch (NetworkName (CommittedParameters config)) (targetNetworkName n)),
             configured c config n, fetching address @ fx)"
    using Connect_mismatch [OF assms] by blast
  from ReadNodeConfiguration_effects [OF assms(2)]
  show "CallReadNodeStatus \<notin> set (fetching address @ fx)"
    by (simp add: fetching_def)
next
  assume "targetNetworkName n = []"
  then show "Connect env n address m =
            (case statusResult env of
               Inl err \<Rightarrow> (Some err, configured c config n, fetching address @ fx @ reading)
             | Inr status \<Rightarrow>
                 (case processNodeStatus (configured c config n) status of
                    (r, n3, fx4) \<Rightarrow> (r, n3, fetching address @ fx @ reading @ fx4)))"
    using Connect_status [OF assms] by blast
qed

theorem Connect_network_name_witness:
  "Connect (flakyNode 0) (New [WithTargetNetworkName ''mainnet'']) ''localhost:9029'' 1 =
     (Some (mismatch ''testnet'' ''mainnet''),
      configured (ClientConn ''localhost:9029'') testnetConfig (New [WithTargetNetworkName ''mainnet'']),
      fetching ''localhost:9029'' @ [CallReadNodeConfiguration 0]) \<and>
   fst (Connect (flakyNode 0) (New [WithTargetNetworkName []]) ''localhost:9029'' 1) = None"
proof -
  have d: "dialResult (flakyNode 0) = Inr (ClientConn ''localhost:9029'')"
    by (simp add: flakyNode_def)
  have r: "ReadNodeConfiguration (flakyNode 0) 1 = (Inr testnetConfig, [CallReadNodeConfiguration 0])"
    by (simp add: ReadNodeConfiguration_def flakyNode_def)
  show ?thesis
    using Connect_network_name [OF d r, of "New [WithTargetNetworkName ''mainnet'']" "''localhost:9029''"]
      Connect_network_name [OF d r, of "New [WithTargetNetworkName []]" "''localhost:9029''"]
    by (simp add: New_def WithTargetNetworkName_def testnetConfig_def flakyNode_def
        processNodeStatus_def)
qed

text \<open>
  C10. After a successful dial every failure of a later step leaves the connection and the
  client stored on the bridge and the connection open: when the configuration cannot be
  read, when the network name does not match and when the status read fails. In the last
  two cases the configuration and its API provider stay stored as well.
\<close>

theorem Connect_not_atomic:
  assumes "dialResult env = Inr c"
  shows "(ReadNodeConfiguration env m = (Inl failure, fx) \<longrightarrow>
          (\<exists>fx'. Connect env n address m =
                   (Some failure, n\<lparr>conn := Some c, client := Some (NewINXClient c)\<rparr>, fx') \<and>
                 CloseConnection \<notin> set fx')) \<and>
         (ReadNodeConfiguration env m = (Inr config, fx) \<and> targetNetworkName n \<noteq> [] \<and>
          targetNetworkName n \<noteq> NetworkName (CommittedParameters config) \<longrightarrow>
          (\<exists>fx'. Connect env n address m =
                   (Some (mismatch (NetworkName (CommittedParameters config)) (targetNetworkName n)),
                    n\<lparr>conn := Some c, client := Some (NewINXClient c), nodeConfig := Some config,
                      apiProvider := APIProvider config\<rparr>, fx') \<and>
                 CloseConnection \<notin> set fx')) \<and>
         (ReadNodeConfiguration env m = (Inr config, fx) \<and>
          (targetNetworkName n = [] \<or> targetNetworkName n = NetworkName (CommittedParameters config)) \<and>
          statusResult env = Inl failure \<longrightarrow>
          (\<exists>fx'. Connect env n address m =
                   (Some failure,
                    n\<lparr>conn := Some c, client := Some (NewINXClient c), nodeConfig := Some config,
                      apiProvider := APIProvider config\<rparr>, fx') \<and>
                 CloseConnection \<notin> set fx'))"
proof (intro conjI impI)
  assume r: "ReadNodeConfiguration env m = (Inl failure, fx)"
  from ReadNodeConfiguration_effects [OF r] Connect_fetch_fails [OF assms r, of n address]
  show "\<exists>fx'. Connect env n address m =
                   (Some failure, n\<lparr>conn := Some c, client := Some (NewINXClient c)\<rparr>, fx') \<and>
                 CloseConnection \<notin> set fx'"
    by (simp add: dialled_def fetching_def)
next
  assume h: "ReadNodeConfiguration env m = (Inr config, fx) \<and> targetNetworkName n \<noteq> [] \<and>
          targetNetworkName n \<noteq> NetworkName (CommittedParameters config)"
  then have r: "ReadNodeConfiguration env m = (Inr config, fx)"
    and t: "targetNetworkName n \<noteq> []" "targetNetworkName n \<noteq> NetworkName (CommittedParameters config)"
    by auto
  from ReadNodeConfiguration_effects [OF r] Connect_mismatch [OF assms r t, of address]
  show "\<exists>fx'. Connect env n address m =
                   (Some (mismatch (NetworkName (CommittedParameters config)) (targetNetworkName n)),
                    n\<lparr>conn := Some c, client := Some (NewINXClient c), nodeConfig := Some config,
                      apiProvider := APIProvider config\<rparr>, fx') \<and>
                 CloseConnection \<notin> set fx'"
    by (simp add: configured_def dialled_def fetching_def)
next
  assume h: "ReadNodeConfiguration env m = (Inr config, fx) \<and>
          (targetNetworkName n = [] \<or> targetNetworkName n = NetworkName (CommittedParameters config)) \<and>
          statusResult env = Inl failure"
  then have r: "ReadNodeConfiguration env m = (Inr config, fx)"
    and t: "targetNetworkName n = [] \<or> targetNetworkName n = NetworkName (CommittedParameters config)"
    and st: "statusResult env = Inl failure" by auto
  from ReadNodeConfiguration_effects [OF r] Connect_status [OF assms r t, of address] st
  show "\<exists>fx'. Connect env n address m =
                   (Some failure,
                    n\<lparr>conn := Some c, client := Some (NewINXClient c), nodeConfig := Some config,
                      apiProvider := APIProvider config\<rparr>, fx') \<and>
                 CloseConnection \<notin> set fx'"
    by (simp add: configured_def dialled_def fetching_def reading_def)
qed

theorem Connect_not_atomic_witness:
  "Connect statuslessNode (New []) ''localhost:9029'' 1 =
     (Some (GRPCStatus Unavailable ''no status''),
      \<lparr>targetNetworkName = [], conn = Some (ClientConn ''localhost:9029''),
       client = Some (NewINXClient (ClientConn ''localhost:9029'')),
       nodeConfig = Some testnetConfig, apiProvider = APIProvider testnetConfig,
       nodeStatus = None, latestCommitment = None, latestFinalizedCommitment = None\<rparr>,
      [Dial ''localhost:9029'',
       LogInfo ''Connecting to node and reading node configuration ...'',
       CallReadNodeConfiguration 0, LogInfo ''Reading node status ...'', CallReadNodeStatus]) \<and>
   conn (New []) = None \<and> client (New []) = None \<and> nodeConfig (New []) = None"
proof -
  have d: "dialResult statuslessNode = Inr (ClientConn ''localhost:9029'')"
    by (simp add: statuslessNode_def flakyNode_def)
  have r: "ReadNodeConfiguration statuslessNode 1 = (Inr testnetConfig, [CallReadNodeConfiguration 0])"
    by (simp add: ReadNodeConfiguration_def statuslessNode_def flakyNode_def)
  have c: "Connect statuslessNode (New []) ''localhost:9029'' 1 =
     (Some (GRPCStatus Unavailable ''no status''),
      \<lparr>targetNetworkName = [], conn = Some (ClientConn ''localhost:9029''),
       client = Some (NewINXClient (ClientConn ''localhost:9029'')),
       nodeConfig = Some testnetConfig, apiProvider = APIProvider testnetConfig,
       nodeStatus = None, latestCommitment = None, latestFinalizedCommitment = None\<rparr>,
      [Dial ''localhost:9029'',
       LogInfo ''Connecting to node and reading node configuration ...'',
       CallReadNodeConfiguration 0, LogInfo ''Reading node status ...'', CallReadNodeStatus])"
    using Connect_status [OF d r, of "New []" "''localhost:9029''"]
    by (simp add: statuslessNode_def flakyNode_def New_def configured_def dialled_def
        fetching_def reading_def)
  from Connect_not_atomic [OF d, of 1 "GRPCStatus Unavailable ''no status''" "[CallReadNodeConfiguration 0]"
      "New []" "''localhost:9029''" testnetConfig] r c
  show ?thesis by (simp add: New_def statuslessNode_def flakyNode_def)
qed

section \<open>Properties of the status cache\<close>

lemma processNodeStatus_stores:
  "processNodeStatus n u = (r, n', fx) \<Longrightarrow>
   LatestCommitment n' = Some (GetLatestCommitment u) \<and>
   LatestFinalizedCommitment n' = Some (GetLatestFinalizedCommitment u)"
  by (auto simp: processNodeStatus_def LatestCommitment_def LatestFinalizedCommitment_def)

lemma snapshots_follow:
  "\<forall>u\<in>set (u0 # updates). statusConsistent u \<Longrightarrow> successively statusOrdered (u0 # updates) \<Longrightarrow>
   LatestCommitment n = Some (GetLatestCommitment u0) \<Longrightarrow>
   LatestFinalizedCommitment n = Some (GetLatestFinalizedCommitment u0) \<Longrightarrow>
   (\<forall>n'\<in>set (snapshots n updates). finalizedBelowLatest n') \<and>
   successively notRegressed (n # snapshots n updates)"
proof (induction updates arbitrary: n u0)
  case Nil
  then show ?case by simp
next
  case (Cons u updates)
  obtain r n1 fx where p: "processNodeStatus n u = (r, n1, fx)"
    by (cases "processNodeStatus n u")
  note stored = processNodeStatus_stores [OF p]
  from Cons.prems(1) have c: "\<forall>v\<in>set (u # updates). statusConsistent v" by simp
  from Cons.prems(2) have o: "successively statusOrdered (u # updates)"
    and step: "statusOrdered u0 u" by simp_all
  from Cons.IH [OF c o] stored have
    ih: "(\<forall>n'\<in>set (snapshots n1 updates). finalizedBelowLatest n') \<and>
         successively notRegressed (n1 # snapshots n1 updates)" by blast
  from c have "statusConsistent u" by simp
  with stored have here: "finalizedBelowLatest n1"
    by (simp add: finalizedBelowLatest_def statusConsistent_def)
  from step stored Cons.prems(3,4) have "notRegressed n n1"
    by (simp add: notRegressed_def statusOrdered_def)
  with ih here p show ?case by simp
qed

text \<open>
  C8, as amended. When every status update has its finalized slot at or below its latest
  slot and the updates arrive with non-decreasing slots (latest and finalized), then every
  snapshot has its finalized slot at or below its latest slot and from one snapshot to the
  next neither slot goes down, as seen through \<^verbatim>\<open>LatestCommitment\<close> and
  \<^verbatim>\<open>LatestFinalizedCommitment\<close>.
\<close>

theorem snapshots_monotone:
  assumes "\<forall>u\<in>set updates. statusConsistent u" and "successively statusOrdered updates"
  shows "(\<forall>n'\<in>set (snapshots (New opts) updates). finalizedBelowLatest n') \<and>
         successively notRegressed (snapshots (New opts) updates)"
proof (cases updates)
  case Nil
  then show ?thesis by simp
next
  case (Cons u0 later)
  obtain r n1 fx where p: "processNodeStatus (New opts) u0 = (r, n1, fx)"
    by (cases "processNodeStatus (New opts) u0")
  note stored = processNodeStatus_stores [OF p]
  from assms Cons stored snapshots_follow [of u0 later n1] have
    rest: "(\<forall>n'\<in>set (snapshots n1 later). finalizedBelowLatest n') \<and>
           successively notRegressed (n1 # snapshots n1 later)" by blast
  from assms(1) Cons have "statusConsistent u0" by simp
  with stored have "finalizedBelowLatest n1"
    by (simp add: finalizedBelowLatest_def statusConsistent_def)
  with rest p Cons show ?thesis by simp
qed

theorem snapshots_monotone_witness:
  "map (\<lambda>n. (map_option Slot (LatestFinalizedCommitment n), map_option Slot (LatestCommitment n)))
     (snapshots (New []) [statusAt 5 3, statusAt 5 4, statusAt 8 4]) =
     [(Some 3, Some 5), (Some 4, Some 5), (Some 4, Some 8)] \<and>
   successively notRegressed (snapshots (New []) [statusAt 5 3, statusAt 5 4, statusAt 8 4])"
proof -
  have "\<forall>u\<in>set [statusAt 5 3, statusAt 5 4, statusAt 8 4]. statusConsistent u"
    by (simp add: statusConsistent_def statusAt_def)
  moreover have "successively statusOrdered [statusAt 5 3, statusAt 5 4, statusAt 8 4]"
    by (simp add: statusOrdered_def statusAt_def)
  ultimately have "successively notRegressed (snapshots (New []) [statusAt 5 3, statusAt 5 4, statusAt 8 4])"
    using snapshots_monotone [of "[statusAt 5 3, statusAt 5 4, statusAt 8 4]" "[]"] by blast
  moreover have "map (\<lambda>n. (map_option Slot (LatestFinalizedCommitment n), map_option Slot (LatestCommitment n)))
     (snapshots (New []) [statusAt 5 3, statusAt 5 4, statusAt 8 4]) =
     [(Some 3, Some 5), (Some 4, Some 5), (Some 4, Some 8)]"
    by (simp add: processNodeStatus_def statusAt_def LatestCommitment_def LatestFinalizedCommitment_def)
  ultimately show ?thesis by blast
qed

text \<open>
  C8 as stated fails: the cache stores what it is given. An update at slot 3 after one at
  slot 5 takes the latest commitment back from 5 to 3, and an update whose finalized slot
  7 is above its latest slot 2 is stored as it is.
\<close>

theorem snapshots_regress:
  "map_option Slot (LatestCommitment (snapshots (New []) [statusAt 5 3, statusAt 3 3] ! 0)) = Some 5 \<and>
   map_option Slot (LatestCommitment (snapshots (New []) [statusAt 5 3, statusAt 3 3] ! 1)) = Some 3 \<and>
   \<not> notRegressed (snapshots (New []) [statusAt 5 3, statusAt 3 3] ! 0)
       (snapshots (New []) [statusAt 5 3, statusAt 3 3] ! 1) \<and>
   map_option Slot (LatestFinalizedCommitment (snapshots (New []) [statusAt 2 7] ! 0)) = Some 7 \<and>
   map_option Slot (LatestCommitment (snapshots (New []) [statusAt 2 7] ! 0)) = Some 2 \<and>
   \<not> finalizedBelowLatest (snapshots (New []) [statusAt 2 7] ! 0)"
  by (simp add: processNodeStatus_def statusAt_def LatestCommitment_def
      LatestFinalizedCommitment_def notRegressed_def finalizedBelowLatest_def)

section \<open>Properties of Run\<close>

lemma runInvariant_start: "runInvariant (Run alreadyCancelled)"
  by (simp add: runInvariant_def closedInOrder_def Run_def)

lemma runInvariant_step:
  "runInvariant s \<Longrightarrow> step a s = Some s' \<Longrightarrow> runInvariant s'"
  by (cases a) (auto simp: runInvariant_def closedInOrder_def c_Done_def split: if_splits)

lemma runInvariant_exec:
  "runInvariant s \<Longrightarrow> exec acts s = Some s' \<Longrightarrow> runInvariant s'"
proof (induction acts arbitrary: s)
  case Nil
  then show ?case by simp
next
  case (Cons a acts)
  from Cons.prems(2) obtain s1 where a: "step a s = Some s1" and rest: "exec acts s1 = Some s'"
    by (auto split: option.splits)
  from runInvariant_step [OF Cons.prems(1) a] have "runInvariant s1" .
  from Cons.IH [OF this rest] show ?case .
qed

text \<open>
  C1, as amended. In every run of \<^verbatim>\<open>Run\<close> the connection is closed at most once, and
  exactly once when \<^verbatim>\<open>Run\<close> has returned. The close comes only after the derived
  context is done: the background task has returned from listening and called
  \<^verbatim>\<open>cancel\<close>, or the context given to \<^verbatim>\<open>Run\<close> was cancelled. So when that
  context is never cancelled the close comes only after the background task has stopped.
\<close>

theorem Run_closes_once:
  assumes "exec acts (Run alreadyCancelled) = Some s"
  shows "length (closes s) \<le> 1 \<and> (runnerAt s = Returned \<longleftrightarrow> length (closes s) = 1) \<and>
         (\<forall>(at, cancelled)\<in>set (closes s). at = Finished \<or> cancelled)"
  using runInvariant_exec [OF runInvariant_start assms]
  by (simp add: runInvariant_def closedInOrder_def)

theorem Run_closes_once_witness:
  "exec [ListenReturns, CallCancel, ReceiveDone, CloseConn] (Run False) =
     Some \<lparr>ctxCancelled = False, cancelCalled = True, listenerAt = Finished, runnerAt = Returned,
           closes = [(Finished, False)]\<rparr> \<and>
   exec [ReceiveDone] (Run False) = None"
  using Run_closes_once [of "[ListenReturns, CallCancel, ReceiveDone, CloseConn]" False
      "\<lparr>ctxCancelled = False, cancelCalled = True, listenerAt = Finished, runnerAt = Returned,
        closes = [(Finished, False)]\<rparr>"]
  by (simp add: Run_def c_Done_def)

text \<open>
  C1 as stated fails when the context given to \<^verbatim>\<open>Run\<close> is cancelled: the receive from
  \<^verbatim>\<open>c.Done()\<close> completes at once and the connection is closed while the background task
  is still inside \<^verbatim>\<open>listenToNodeStatus\<close>.
\<close>

theorem Run_closes_while_listening:
  "exec [CancelCtx, ReceiveDone, CloseConn] (Run False) =
     Some \<lparr>ctxCancelled = True, cancelCalled = False, listenerAt = Listening, runnerAt = Returned,
           closes = [(Listening, True)]\<rparr>"
  by (simp add: Run_def c_Done_def)

end
